theory Spec2Isabelle
  imports Main "HOL-Library.Word"
begin

unbundle bit_operations_syntax

section \<open>Data model (rgb\_grabber.hpp, frame\_publisher.hpp)\<close>

type_synonym byte = "8 word"

text \<open>
  \<^verbatim>\<open>struct RGBFrame\<close>. The C++ fields \<^verbatim>\<open>int width, height\<close> are kept as their 32-bit
  patterns (read them with \<open>sint\<close>); \<^verbatim>\<open>timestamp_ms\<close> is a \<^verbatim>\<open>uint64_t\<close> and
  \<^verbatim>\<open>frame_number\<close> a \<^verbatim>\<open>uint32_t\<close>.
\<close>

record RGBFrame =
  data :: "byte list"
  width :: "32 word"
  height :: "32 word"
  timestamp_ms :: "64 word"
  frame_number :: "32 word"

text \<open>\<^verbatim>\<open>RGBGrabber::Config\<close>; the four \<^verbatim>\<open>int\<close> fields are signed 32-bit values.\<close>

record Config =
  cfg_width :: "32 word"
  cfg_height :: "32 word"
  fps :: "32 word"
  jpeg_quality :: "32 word"
  device_serial :: string

text \<open>
  What \<^verbatim>\<open>start\<close> hands to the capture source: the \<^verbatim>\<open>rs2::config\<close> built by
  \<^verbatim>\<open>enable_stream(RS2_STREAM_COLOR, width, height, RS2_FORMAT_RGB8, fps)\<close> and, for a
  non-empty serial, \<^verbatim>\<open>enable_device(serial)\<close>.
\<close>

record rs2_config =
  stream_width :: "32 word"
  stream_height :: "32 word"
  stream_fps :: "32 word"
  stream_device :: "string option"

text \<open>
  The capture source is an external collaborator. Its answer to \<^verbatim>\<open>pipeline_->start(cfg)\<close>
  is a parameter of the model: \<open>dev cfg\<close> holds when the device opens with the requested
  stream, and is false when the call throws \<^verbatim>\<open>rs2::error\<close> (no device, unsupported mode).
\<close>

type_synonym device = "rs2_config \<Rightarrow> bool"

datatype pipeline_state = Stopped | Streaming rs2_config

datatype rs2_error = Timeout | DeviceError | NotStreaming

text \<open>
  \<^verbatim>\<open>class RGBGrabber\<close>. \<open>latest_frame\<close> is the atomic pointer \<^verbatim>\<open>latest_frame_\<close>:
  \<open>None\<close> is \<^verbatim>\<open>nullptr\<close>, \<open>Some i\<close> is \<^verbatim>\<open>&frame_buffer_[i]\<close>. \<open>capture_threads\<close> counts
  the detached threads created by \<^verbatim>\<open>std::thread(...).detach()\<close>.
\<close>

record RGBGrabber =
  config :: Config
  pipeline :: pipeline_state
  running :: bool
  frame_count :: "64 word"
  latest_frame :: "int option"
  frame_buffer :: "RGBFrame list"
  write_buffer :: int
  start_time_ms :: "64 word"
  capture_threads :: nat

text \<open>
  The constructor. \<^verbatim>\<open>reserve\<close> leaves both \<^verbatim>\<open>data\<close> vectors empty; the scalar fields
  of the two slots are not initialised by the source, so their first contents \<open>u0\<close>, \<open>u1\<close>
  are arbitrary.
\<close>

definition new_RGBGrabber :: "Config \<Rightarrow> 64 word \<Rightarrow> RGBFrame \<Rightarrow> RGBFrame \<Rightarrow> RGBGrabber" where
  "new_RGBGrabber cfg now u0 u1 =
     \<lparr>config = cfg, pipeline = Stopped, running = False, frame_count = 0,
      latest_frame = None, frame_buffer = [u0\<lparr>data := []\<rparr>, u1\<lparr>data := []\<rparr>],
      write_buffer = 0, start_time_ms = now, capture_threads = 0\<rparr>"

section \<open>RGBGrabber::start and RGBGrabber::stop\<close>

definition stream_request :: "Config \<Rightarrow> rs2_config" where
  "stream_request c =
     \<lparr>stream_width = cfg_width c, stream_height = cfg_height c, stream_fps = fps c,
      stream_device = (if device_serial c = [] then None else Some (device_serial c))\<rparr>"

text \<open>
  \<^verbatim>\<open>bool RGBGrabber::start()\<close>: the early return when already running, then the
  \<^verbatim>\<open>try\<close> block; the \<^verbatim>\<open>catch (const rs2::error&)\<close> branch returns false with the
  object untouched. \<open>now\<close> is the clock read by \<^verbatim>\<open>get_timestamp_ms()\<close>.
\<close>

definition start :: "device \<Rightarrow> 64 word \<Rightarrow> RGBGrabber \<Rightarrow> bool \<times> RGBGrabber" where
  "start dev now g =
     (if running g then (True, g)
      else let cfg = stream_request (config g) in
        if dev cfg
        then (True, g\<lparr>pipeline := Streaming cfg, running := True, start_time_ms := now,
                       capture_threads := Suc (capture_threads g)\<rparr>)
        else (False, g))"

text \<open>
  \<^verbatim>\<open>pipeline_->stop()\<close> of the SDK throws when the pipeline is not streaming; the source
  does not catch it, so it is an error result of \<open>stop\<close>.
\<close>

definition pipeline_stop :: "pipeline_state \<Rightarrow> rs2_error + pipeline_state" where
  "pipeline_stop p = (case p of Stopped \<Rightarrow> Inl NotStreaming | Streaming c \<Rightarrow> Inr Stopped)"

definition stop :: "RGBGrabber \<Rightarrow> rs2_error + RGBGrabber" where
  "stop g =
     (if \<not> running g then Inr g
      else case pipeline_stop (pipeline g) of
             Inl e \<Rightarrow> Inl e
           | Inr p \<Rightarrow> Inr (g\<lparr>running := False, pipeline := p\<rparr>))"

section \<open>RGBGrabber::capture\_loop and RGBGrabber::get\_latest\_frame\<close>

text \<open>
  What the codec does with one frame. The libjpeg calls of \<^verbatim>\<open>encode_jpeg\<close> either all
  return, leaving the compressed bytes in \<^verbatim>\<open>mem\<close> (\<open>Compressed\<close>), or one of them reports an
  error (\<open>CodecError\<close>). \<^verbatim>\<open>encode_jpeg\<close> installs the library's default error manager
  (\<^verbatim>\<open>cinfo.err = jpeg_std_error(&jerr)\<close>, with no \<^verbatim>\<open>error_exit\<close> of its own), and that
  manager's \<^verbatim>\<open>error_exit\<close> prints the message and calls \<^verbatim>\<open>exit()\<close>.
\<close>

datatype codec_result = Compressed "byte list" | CodecError

datatype fatal = ProcessExit

text \<open>
  What the environment supplies to one pass through the loop body:
  \<^item> \<open>WaitFailed e\<close>: \<^verbatim>\<open>wait_for_frames(1000)\<close> threw \<^verbatim>\<open>rs2::error\<close> (the SDK reports a
    timeout this way as well as a device failure);
  \<^item> \<open>NoColorFrame\<close>: the frameset holds no color frame (\<^verbatim>\<open>!color_frame\<close>);
  \<^item> \<open>ColorFrame w h codec now\<close>: a color frame of \<open>w\<close> by \<open>h\<close> pixels, what the codec does
    with it, and the clock value \<open>now\<close> read after encoding.
\<close>

datatype capture_input =
    WaitFailed rs2_error
  | NoColorFrame
  | ColorFrame "32 word" "32 word" codec_result "64 word"

text \<open>
  \<^verbatim>\<open>encode_jpeg(frame, output)\<close>. On a codec error the process exits inside the libjpeg
  call, before anything is assigned to \<^verbatim>\<open>output\<close>. When the codec returns,
  \<^verbatim>\<open>output.assign(mem, mem + mem_size)\<close> runs and the result is \<^verbatim>\<open>!output.empty()\<close>; the
  source makes this test although a codec that returns has written at least the JPEG
  headers.
\<close>

definition encode_jpeg :: "codec_result \<Rightarrow> fatal + byte list \<times> bool" where
  "encode_jpeg codec =
     (case codec of
        CodecError \<Rightarrow> Inl ProcessExit
      | Compressed mem \<Rightarrow> Inr (mem, mem \<noteq> []))"

fun encode_succeeds :: "capture_input \<Rightarrow> bool" where
  "encode_succeeds (ColorFrame w h codec now) =
     (case encode_jpeg codec of Inl e \<Rightarrow> False | Inr (output, ok) \<Rightarrow> ok)"
| "encode_succeeds _ = False"

text \<open>Whether the iteration ends the process: \<^verbatim>\<open>exit()\<close> was called inside \<^verbatim>\<open>encode_jpeg\<close>.\<close>

fun process_exits :: "capture_input \<Rightarrow> bool" where
  "process_exits (ColorFrame w h codec now) =
     (case encode_jpeg codec of Inl e \<Rightarrow> True | Inr r \<Rightarrow> False)"
| "process_exits _ = False"

text \<open>
  A store through the reference \<^verbatim>\<open>RGBFrame& frame = frame_buffer_[write_idx]\<close>. The index
  is 0 or 1 in every state the loop reaches (\<open>store_inv\<close> below); outside that range the
  C++ access is undefined and the model leaves the array as it is.
\<close>

definition slot_update :: "int \<Rightarrow> (RGBFrame \<Rightarrow> RGBFrame) \<Rightarrow> RGBGrabber \<Rightarrow> RGBGrabber" where
  "slot_update i f g =
     (if 0 \<le> i \<and> i < int (length (frame_buffer g))
      then g\<lparr>frame_buffer := (frame_buffer g)[nat i := f (frame_buffer g ! nat i)]\<rparr>
      else g)"

text \<open>
  The loop body as the sequence of states it goes through, one per store, in program
  order: the encoder's output into \<^verbatim>\<open>frame.data\<close>, then \<^verbatim>\<open>width\<close>, \<^verbatim>\<open>height\<close>,
  \<^verbatim>\<open>timestamp_ms\<close>, the \<^verbatim>\<open>fetch_add(1)\<close> on the counter, \<^verbatim>\<open>frame_number\<close>, the store to
  \<^verbatim>\<open>write_buffer_\<close> and last the store to \<^verbatim>\<open>latest_frame_\<close>. A failed wait (the \<^verbatim>\<open>catch\<close>
  branch logs and sleeps), a missing color frame and a codec error store nothing.
\<close>

fun capture_steps :: "capture_input \<Rightarrow> RGBGrabber \<Rightarrow> RGBGrabber list" where
  "capture_steps (WaitFailed e) g = []"
| "capture_steps NoColorFrame g = []"
| "capture_steps (ColorFrame w h codec now) g =
     (let write_idx = write_buffer g
      in case encode_jpeg codec of
           Inl e \<Rightarrow> []
         | Inr (output, ok) \<Rightarrow>
             let g1 = slot_update write_idx (\<lambda>f. f\<lparr>data := output\<rparr>) g
             in if ok
                then
                  let g2 = slot_update write_idx (\<lambda>f. f\<lparr>width := w\<rparr>) g1;
                      g3 = slot_update write_idx (\<lambda>f. f\<lparr>height := h\<rparr>) g2;
                      g4 = slot_update write_idx (\<lambda>f. f\<lparr>timestamp_ms := now\<rparr>) g3;
                      n = frame_count g4;
                      g5 = g4\<lparr>frame_count := n + 1\<rparr>;
                      g6 = slot_update write_idx (\<lambda>f. f\<lparr>frame_number := ucast n\<rparr>) g5;
                      g7 = g6\<lparr>write_buffer := 1 - write_idx\<rparr>;
                      g8 = g7\<lparr>latest_frame := Some write_idx\<rparr>
                  in [g1, g2, g3, g4, g5, g6, g7, g8]
                else [g1])"

text \<open>
  The state an iteration leaves: after its last store, or, when the process exits in it, the
  state at the exit.
\<close>

definition capture_iteration :: "capture_input \<Rightarrow> RGBGrabber \<Rightarrow> RGBGrabber" where
  "capture_iteration inp g = last (g # capture_steps inp g)"

text \<open>
  The loop body over the inputs of successive iterations. An iteration in which the process
  exits is the last one: the inputs after it are never consumed. \<open>before_exit\<close> is the part
  of the inputs that is.
\<close>

fun capture_run :: "capture_input list \<Rightarrow> RGBGrabber \<Rightarrow> RGBGrabber" where
  "capture_run [] g = g"
| "capture_run (inp # inps) g =
     (if process_exits inp then g else capture_run inps (capture_iteration inp g))"

definition before_exit :: "capture_input list \<Rightarrow> capture_input list" where
  "before_exit inps = takeWhile (\<lambda>inp. \<not> process_exits inp) inps"

text \<open>
  \<^verbatim>\<open>while (running_) { ... }\<close> against a finite prefix of its environment. Each element
  gives the input of one iteration and whether another thread executed the store
  \<^verbatim>\<open>running_ = false\<close> of \<open>stop\<close> during it. \<open>Exited\<close> is the loop having returned;
  \<open>Looping\<close> is the thread still inside the loop when the known inputs are used up;
  \<open>Terminated\<close> is the process having exited inside the loop body, with the state at the
  exit.
\<close>

datatype loop_result = Exited RGBGrabber | Looping RGBGrabber | Terminated fatal RGBGrabber

fun capture_loop :: "(capture_input \<times> bool) list \<Rightarrow> RGBGrabber \<Rightarrow> loop_result" where
  "capture_loop [] g = (if running g then Looping g else Exited g)"
| "capture_loop ((inp, stop_requested) # rest) g =
     (if running g
      then if process_exits inp then Terminated ProcessExit g
           else let g' = capture_iteration inp g
                in capture_loop rest (if stop_requested then g'\<lparr>running := False\<rparr> else g')
      else Exited g)"

text \<open>
  \<^verbatim>\<open>bool get_latest_frame(RGBFrame& frame)\<close> is two steps: the atomic load
  \<^verbatim>\<open>latest_frame_.load()\<close>, then, for a non-null pointer, the copy \<^verbatim>\<open>frame = *latest\<close>.
  \<open>copy_frame\<close> is the second step, on the pointer that was loaded and the state the copy
  reads; \<open>None\<close> is the result false (the caller's frame untouched), \<open>Some f\<close> is the result
  true with \<open>f\<close> copied out of the slot. \<open>get_latest_frame\<close> is the call with no store of the
  capture thread between its two steps.
\<close>

definition copy_frame :: "int option \<Rightarrow> RGBGrabber \<Rightarrow> RGBFrame option" where
  "copy_frame latest g =
     (case latest of None \<Rightarrow> None | Some i \<Rightarrow> Some (frame_buffer g ! nat i))"

definition get_latest_frame :: "RGBGrabber \<Rightarrow> RGBFrame option" where
  "get_latest_frame g = copy_frame (latest_frame g) g"

text \<open>
  The state of the double buffer at the head of an iteration: two slots, a write index
  that names one of them, and a latest pointer that is null or names the other one.
\<close>

definition store_inv :: "RGBGrabber \<Rightarrow> bool" where
  "store_inv g =
     (length (frame_buffer g) = 2 \<and> (write_buffer g = 0 \<or> write_buffer g = 1) \<and>
      (latest_frame g = None \<or> latest_frame g = Some (1 - write_buffer g)))"

text \<open>The frame that a successful iteration assembles when the counter reads \<open>n\<close>.\<close>

fun frame_of :: "capture_input \<Rightarrow> 64 word \<Rightarrow> RGBFrame" where
  "frame_of (ColorFrame w h (Compressed jpeg) now) n =
     \<lparr>data = jpeg, width = w, height = h, timestamp_ms = now, frame_number = ucast n\<rparr>"
| "frame_of _ n = \<lparr>data = [], width = 0, height = 0, timestamp_ms = 0, frame_number = ucast n\<rparr>"

text \<open>
  The states a grabber can be in at the head of a loop iteration: constructed, then any
  sequence of \<open>start\<close> calls, \<open>stop\<close> calls that return, and passes of the capture thread
  through the loop body.
\<close>

inductive reachable :: "RGBGrabber \<Rightarrow> bool" where
  constructed: "reachable (new_RGBGrabber cfg now u0 u1)"
| started: "reachable g \<Longrightarrow> reachable (snd (start dev now g))"
| stopped: "reachable g \<Longrightarrow> stop g = Inr g' \<Longrightarrow> reachable g'"
| captured: "reachable g \<Longrightarrow> reachable (capture_iteration inp g)"

text \<open>
  The frames the capture thread publishes over a run, in order: after each iteration whose
  encode succeeded, the frame that \<open>latest_frame\<close> then points to. Nothing is published in or
  after an iteration in which the process exits.
\<close>

fun published_frames :: "capture_input list \<Rightarrow> RGBGrabber \<Rightarrow> RGBFrame list" where
  "published_frames [] g = []"
| "published_frames (inp # inps) g =
     (if process_exits inp then []
      else let g' = capture_iteration inp g
           in (if encode_succeeds inp
               then (case get_latest_frame g' of None \<Rightarrow> [] | Some f \<Rightarrow> [f])
               else []) @ published_frames inps g')"

section \<open>FramePublisher (frame\_publisher.cpp)\<close>

text \<open>
  \<^verbatim>\<open>std::memcpy(ptr, &x, n)\<close> copies the object representation of \<open>x\<close>, which depends on the
  byte order of the producing platform; both orders are modelled.
\<close>

datatype byte_order = LittleEndian | BigEndian

definition le_bytes :: "nat \<Rightarrow> 'a::len word \<Rightarrow> byte list" where
  "le_bytes n w = map (\<lambda>i. ucast (drop_bit (8 * i) w)) [0..<n]"

definition object_bytes :: "byte_order \<Rightarrow> nat \<Rightarrow> 'a::len word \<Rightarrow> byte list" where
  "object_bytes order n w =
     (case order of LittleEndian \<Rightarrow> le_bytes n w | BigEndian \<Rightarrow> rev (le_bytes n w))"

definition header_size :: nat where
  "header_size = 4 * 2 + 8 + 4"

definition total_size :: "RGBFrame \<Rightarrow> nat" where
  "total_size frame = header_size + length (data frame)"

text \<open>
  The message buffer as \<open>publish\<close> fills it: four \<^verbatim>\<open>memcpy\<close> calls for the header fields,
  each followed by advancing \<^verbatim>\<open>ptr\<close> by the field's size, then the JPEG bytes.
\<close>

definition build_message :: "byte_order \<Rightarrow> RGBFrame \<Rightarrow> byte list" where
  "build_message order frame =
     object_bytes order 4 (width frame) @
     object_bytes order 4 (height frame) @
     object_bytes order 8 (timestamp_ms frame) @
     object_bytes order 4 (frame_number frame) @
     data frame"

text \<open>
  The reading side is not part of these sources. \<open>parse_message_spec\<close> follows the layout
  table of the specification (section 6): width at offset 0, height at 4, timestamp at 8,
  sequence number at 16, pixel bytes from offset 20 to the end of the message.
\<close>

definition le_word :: "byte list \<Rightarrow> 'a::len word" where
  "le_word bs = foldr (\<lambda>b acc. ucast b OR push_bit 8 acc) bs 0"

definition word_of_bytes :: "byte_order \<Rightarrow> byte list \<Rightarrow> 'a::len word" where
  "word_of_bytes order bs =
     le_word (case order of LittleEndian \<Rightarrow> bs | BigEndian \<Rightarrow> rev bs)"

definition parse_message_spec :: "byte_order \<Rightarrow> byte list \<Rightarrow> RGBFrame option" where
  "parse_message_spec order msg =
     (if length msg < 20 then None
      else Some \<lparr>data = drop 20 msg,
                 width = word_of_bytes order (take 4 msg),
                 height = word_of_bytes order (take 4 (drop 4 msg)),
                 timestamp_ms = word_of_bytes order (take 8 (drop 8 msg)),
                 frame_number = word_of_bytes order (take 4 (drop 16 msg))\<rparr>)"

record PublisherConfig =
  endpoint :: string
  high_water_mark :: "32 word"

text \<open>
  \<^verbatim>\<open>class FramePublisher\<close>. The socket is represented by whether it is open and by the
  messages it has accepted (\<open>sent\<close>); the two counters are plain \<^verbatim>\<open>uint64_t\<close>.
\<close>

record FramePublisher =
  pub_config :: PublisherConfig
  socket_open :: bool
  sent :: "byte list list"
  published_count :: "64 word"
  dropped_count :: "64 word"

text \<open>The publisher after its constructor has bound the socket.\<close>

definition new_FramePublisher :: "PublisherConfig \<Rightarrow> FramePublisher" where
  "new_FramePublisher cfg =
     \<lparr>pub_config = cfg, socket_open = True, sent = [], published_count = 0,
      dropped_count = 0\<rparr>"

text \<open>
  The outcomes of \<^verbatim>\<open>socket_->send(message, zmq::send_flags::dontwait)\<close>: a value (the
  message was queued), an empty result (the send could not complete immediately), or
  \<^verbatim>\<open>zmq::error_t\<close> thrown. The transport's answer \<open>r\<close> is a parameter; on a socket whose
  handle has been closed the call can only throw.
\<close>

datatype send_result = Sent | WouldBlock | SendError

definition socket_send :: "bool \<Rightarrow> send_result \<Rightarrow> send_result" where
  "socket_send is_open r = (if is_open then r else SendError)"

definition publish ::
  "byte_order \<Rightarrow> send_result \<Rightarrow> RGBFrame \<Rightarrow> FramePublisher \<Rightarrow> bool \<times> FramePublisher" where
  "publish order r frame p =
     (let message = build_message order frame
      in case socket_send (socket_open p) r of
           Sent \<Rightarrow>
             (True, p\<lparr>sent := sent p @ [message], published_count := published_count p + 1\<rparr>)
         | WouldBlock \<Rightarrow> (False, p\<lparr>dropped_count := dropped_count p + 1\<rparr>)
         | SendError \<Rightarrow> (False, p\<lparr>dropped_count := dropped_count p + 1\<rparr>))"

text \<open>
  The class has no operation that closes the socket and leaves the publisher usable: the
  socket is closed by \<^verbatim>\<open>~FramePublisher()\<close> alone. Its body calls \<^verbatim>\<open>socket_->close()\<close>; then
  the members, among them the \<^verbatim>\<open>std::unique_ptr\<close>s \<^verbatim>\<open>socket_\<close> and \<^verbatim>\<open>context_\<close>, are
  destroyed and the lifetime of the object ends. So a publisher is either live, with the
  state of its fields, or destroyed.
\<close>

datatype publisher_object = Live FramePublisher | Destroyed

definition destroy_FramePublisher :: "FramePublisher \<Rightarrow> publisher_object" where
  "destroy_FramePublisher p = Destroyed"

text \<open>
  A call \<^verbatim>\<open>publisher.publish(frame)\<close> on the object. On a destroyed publisher the call has
  undefined behaviour: \<open>publish\<close> dereferences the destroyed \<^verbatim>\<open>socket_\<close>, and nothing in it
  tests for that.
\<close>

datatype fault = UseAfterDestroy

definition publish_on ::
  "byte_order \<Rightarrow> send_result \<Rightarrow> RGBFrame \<Rightarrow> publisher_object \<Rightarrow> fault + bool \<times> publisher_object"
  where
  "publish_on order r frame obj =
     (case obj of
        Destroyed \<Rightarrow> Inl UseAfterDestroy
      | Live p \<Rightarrow>
          Inr (fst (publish order r frame p), Live (snd (publish order r frame p))))"

section \<open>The two objects of main.cpp\<close>

record App =
  grabber :: RGBGrabber
  publisher :: FramePublisher

text \<open>\<^verbatim>\<open>grabber.stop()\<close> as \<open>main\<close> and the grabber's destructor call it.\<close>

definition app_stop :: "App \<Rightarrow> rs2_error + App" where
  "app_stop a = (case stop (grabber a) of Inl e \<Rightarrow> Inl e | Inr g \<Rightarrow> Inr (a\<lparr>grabber := g\<rparr>))"

section \<open>Sample values\<close>

text \<open>The defaults of \<^verbatim>\<open>RGBGrabber::Config\<close> and \<^verbatim>\<open>FramePublisher::Config\<close>.\<close>

definition default_config :: Config where
  "default_config =
     \<lparr>cfg_width = 640, cfg_height = 480, fps = 30, jpeg_quality = 85, device_serial = []\<rparr>"

definition default_publisher_config :: PublisherConfig where
  "default_publisher_config = \<lparr>endpoint = ''ipc:///tmp/mdai_rgb_frames'', high_water_mark = 2\<rparr>"

text \<open>A camera that streams 640 by 480 at 30 frames per second and nothing else.\<close>

definition vga_camera :: device where
  "vga_camera c = (stream_width c = 640 \<and> stream_height c = 480 \<and> stream_fps c = 30)"

definition zero_frame :: RGBFrame where
  "zero_frame = \<lparr>data = [], width = 0, height = 0, timestamp_ms = 0, frame_number = 0\<rparr>"

definition fresh_grabber :: RGBGrabber where
  "fresh_grabber = new_RGBGrabber default_config 0 zero_frame zero_frame"

definition started_grabber :: RGBGrabber where
  "started_grabber = snd (start vga_camera 5 fresh_grabber)"

section \<open>Lemmas about the capture loop\<close>

lemma encode_jpeg_Compressed [simp]: "encode_jpeg (Compressed mem) = Inr (mem, mem \<noteq> [])"
  by (simp add: encode_jpeg_def)

lemma encode_jpeg_CodecError [simp]: "encode_jpeg CodecError = Inl ProcessExit"
  by (simp add: encode_jpeg_def)

lemma capture_steps_CodecError [simp]: "capture_steps (ColorFrame w h CodecError now) g = []"
  by simp

lemma process_exits_iff:
  "process_exits inp \<longleftrightarrow> (\<exists>w h now. inp = ColorFrame w h CodecError now)"
proof (cases inp)
  case (ColorFrame w h codec now)
  then show ?thesis by (cases codec) simp_all
qed simp_all

lemma before_exit_Nil [simp]: "before_exit [] = []"
  by (simp add: before_exit_def)

lemma before_exit_Cons [simp]:
  "before_exit (inp # inps) = (if process_exits inp then [] else inp # before_exit inps)"
  by (simp add: before_exit_def)

lemma slot_update_write_buffer [simp]: "write_buffer (slot_update i f g) = write_buffer g"
  by (simp add: slot_update_def)

lemma slot_update_latest_frame [simp]: "latest_frame (slot_update i f g) = latest_frame g"
  by (simp add: slot_update_def)

lemma slot_update_frame_count [simp]: "frame_count (slot_update i f g) = frame_count g"
  by (simp add: slot_update_def)

lemma slot_update_running [simp]: "running (slot_update i f g) = running g"
  by (simp add: slot_update_def)

lemma slot_update_length [simp]:
  "length (frame_buffer (slot_update i f g)) = length (frame_buffer g)"
  by (simp add: slot_update_def)

lemma slot_update_twice [simp]:
  "slot_update i f (slot_update i f' g) = slot_update i (\<lambda>x. f (f' x)) g"
  by (cases "0 \<le> i \<and> i < int (length (frame_buffer g))")
     (auto simp: slot_update_def nat_less_iff)

lemma slot_update_frame_count_swap [simp]:
  "slot_update i f (g\<lparr>frame_count := n\<rparr>) = (slot_update i f g)\<lparr>frame_count := n\<rparr>"
  by (simp add: slot_update_def)

lemma RGBFrame_all_fields:
  "(f::RGBFrame)\<lparr>data := d, width := w, height := h, timestamp_ms := t, frame_number := n\<rparr> =
     \<lparr>data = d, width = w, height = h, timestamp_ms = t, frame_number = n\<rparr>"
  by (cases f) simp

lemma capture_steps_last_success:
  "jpeg \<noteq> [] \<Longrightarrow>
   capture_iteration (ColorFrame w h (Compressed jpeg) now) g =
     (slot_update (write_buffer g)
        (\<lambda>f. frame_of (ColorFrame w h (Compressed jpeg) now) (frame_count g)) g)
       \<lparr>frame_count := frame_count g + 1, write_buffer := 1 - write_buffer g,
        latest_frame := Some (write_buffer g)\<rparr>"
  apply (simp add: capture_iteration_def Let_def)
  apply (rule arg_cong [where f = "\<lambda>x. x\<lparr>frame_count := _, write_buffer := _, latest_frame := _\<rparr>"])
  apply (simp add: slot_update_def RGBFrame_all_fields)
  done

lemma get_latest_frame_frame_count [simp]:
  "get_latest_frame (g\<lparr>frame_count := n\<rparr>) = get_latest_frame g"
  by (simp add: get_latest_frame_def copy_frame_def split: option.split)

lemma get_latest_frame_write_buffer [simp]:
  "get_latest_frame (g\<lparr>write_buffer := n\<rparr>) = get_latest_frame g"
  by (simp add: get_latest_frame_def copy_frame_def split: option.split)

lemma get_latest_frame_slot_update:
  assumes "store_inv g"
  shows "get_latest_frame (slot_update (write_buffer g) f g) = get_latest_frame g"
proof (cases "latest_frame g")
  case None
  then show ?thesis by (simp add: get_latest_frame_def copy_frame_def)
next
  case (Some i)
  with assms have i: "i = 1 - write_buffer g" and wb: "write_buffer g = 0 \<or> write_buffer g = 1"
    by (auto simp: store_inv_def)
  from wb have "nat i \<noteq> nat (write_buffer g)" using i by auto
  with Some show ?thesis
    by (simp add: get_latest_frame_def copy_frame_def slot_update_def)
qed

lemma get_latest_frame_published:
  assumes "store_inv g"
  shows "get_latest_frame ((slot_update (write_buffer g) f g)
             \<lparr>frame_count := n, write_buffer := m, latest_frame := Some (write_buffer g)\<rparr>)
           = Some (f (frame_buffer g ! nat (write_buffer g)))"
  using assms by (auto simp: get_latest_frame_def copy_frame_def slot_update_def store_inv_def)

lemma capture_steps_reader:
  assumes inv: "store_inv g" and s: "s \<in> set (capture_steps inp g)"
  shows "(latest_frame s = latest_frame g \<and> get_latest_frame s = get_latest_frame g)
       \<or> (s = capture_iteration inp g \<and> latest_frame s = Some (write_buffer g)
            \<and> get_latest_frame s = Some (frame_of inp (frame_count g)))"
proof (cases inp)
  case (ColorFrame w h codec now)
  note inp = this
  show ?thesis
  proof (cases codec)
    case CodecError
    with s inp show ?thesis by simp
  next
    case (Compressed jpeg)
    note ColorFrame = inp [unfolded Compressed]
    show ?thesis
  proof (cases "jpeg = []")
    case True
    with s ColorFrame have "s = slot_update (write_buffer g) (\<lambda>f. f\<lparr>data := []\<rparr>) g"
      by simp
    then show ?thesis by (simp add: get_latest_frame_slot_update [OF inv])
  next
    case False
    let ?last = "capture_iteration inp g"
    from False s ColorFrame consider
        (writing) F n where "s = slot_update (write_buffer g) F g \<or>
                             s = (slot_update (write_buffer g) F g)\<lparr>frame_count := n\<rparr> \<or>
                             s = (slot_update (write_buffer g) F g)\<lparr>frame_count := n, write_buffer := 1 - write_buffer g\<rparr>"
      | (published) "s = ?last"
      by (auto simp: Let_def capture_iteration_def)
    then show ?thesis
    proof cases
      case writing
      then show ?thesis
        by (auto simp: get_latest_frame_slot_update [OF inv])
    next
      case published
      have "get_latest_frame ?last = Some (frame_of inp (frame_count g))"
        using False ColorFrame get_latest_frame_published [OF inv]
        by (simp add: capture_steps_last_success)
      moreover have "latest_frame ?last = Some (write_buffer g)"
        using False ColorFrame by (simp add: capture_steps_last_success)
      ultimately show ?thesis using published by simp
    qed
  qed
  qed
qed (use s in simp_all)

lemma capture_iteration_WaitFailed [simp]: "capture_iteration (WaitFailed e) g = g"
  by (simp add: capture_iteration_def)

lemma capture_iteration_NoColorFrame [simp]: "capture_iteration NoColorFrame g = g"
  by (simp add: capture_iteration_def)

lemma capture_iteration_encode_failure:
  "capture_iteration (ColorFrame w h (Compressed []) now) g =
     slot_update (write_buffer g) (\<lambda>f. f\<lparr>data := []\<rparr>) g"
  by (simp add: capture_iteration_def)

lemma capture_iteration_CodecError [simp]:
  "capture_iteration (ColorFrame w h CodecError now) g = g"
  by (simp add: capture_iteration_def)

lemma store_inv_slot_update [simp]: "store_inv (slot_update i f g) = store_inv g"
  by (simp add: store_inv_def)

lemma store_inv_new: "store_inv (new_RGBGrabber cfg now u0 u1)"
  by (simp add: store_inv_def new_RGBGrabber_def)

lemma store_inv_start: "store_inv g \<Longrightarrow> store_inv (snd (start dev now g))"
  by (simp add: start_def store_inv_def Let_def)

lemma store_inv_stop: "store_inv g \<Longrightarrow> stop g = Inr g' \<Longrightarrow> store_inv g'"
  by (auto simp: stop_def store_inv_def split: if_splits sum.splits)

lemma store_inv_capture_iteration:
  assumes "store_inv g"
  shows "store_inv (capture_iteration inp g)"
proof (cases inp)
  case (ColorFrame w h codec now)
  show ?thesis
  proof (cases codec)
    case CodecError
    with assms ColorFrame show ?thesis by simp
  next
    case (Compressed jpeg)
    show ?thesis
    proof (cases "jpeg = []")
      case True
      with assms ColorFrame Compressed show ?thesis
        by (simp add: capture_iteration_encode_failure)
    next
      case False
      with assms ColorFrame Compressed show ?thesis
        by (auto simp: capture_steps_last_success store_inv_def)
    qed
  qed
qed (use assms in simp_all)

lemma reachable_store_inv: "reachable g \<Longrightarrow> store_inv g"
proof (induction rule: reachable.induct)
  case (constructed cfg now u0 u1)
  show ?case by (rule store_inv_new)
next
  case (started g dev now)
  then show ?case by (simp add: store_inv_start)
next
  case (stopped g g')
  then show ?case by (blast intro: store_inv_stop)
next
  case (captured g inp)
  then show ?case by (simp add: store_inv_capture_iteration)
qed

lemma reachable_capture_run: "reachable g \<Longrightarrow> reachable (capture_run inps g)"
  by (induction inps arbitrary: g) (simp_all add: reachable.captured)

lemma capture_steps_other_slot:
  assumes "s \<in> set (capture_steps inp g)"
  shows "frame_buffer s ! nat (1 - write_buffer g) = frame_buffer g ! nat (1 - write_buffer g)"
proof (cases inp)
  case (ColorFrame w h codec now)
  have neq: "nat (1 - write_buffer g) \<noteq> nat (write_buffer g)
             \<or> \<not> (0 \<le> write_buffer g \<and> write_buffer g < int (length (frame_buffer g)))"
    by (cases "write_buffer g \<le> 0") auto
  have "frame_buffer (slot_update (write_buffer g) F g) ! nat (1 - write_buffer g)
          = frame_buffer g ! nat (1 - write_buffer g)" for F
    using neq by (auto simp: slot_update_def)
  with assms ColorFrame show ?thesis
    by (cases codec) (auto simp: Let_def split: if_splits)
qed (use assms in simp_all)

lemma latest_frame_before_publish:
  assumes "s \<in> set (butlast (g # capture_steps inp g))"
  shows "latest_frame s = latest_frame g"
proof (cases inp)
  case (ColorFrame w h codec now)
  show ?thesis
  proof (cases codec)
    case CodecError
    with assms ColorFrame show ?thesis by simp
  next
    case (Compressed jpeg)
    with assms ColorFrame show ?thesis
      by (cases "jpeg = []") (auto simp: Let_def)
  qed
qed (use assms in simp_all)

lemma copy_frame_old_latest:
  assumes inv: "store_inv g" and t: "t \<in> set (g # capture_steps inp g)"
  shows "copy_frame (latest_frame g) t = get_latest_frame g"
proof (cases "latest_frame g")
  case None
  then show ?thesis by (simp add: get_latest_frame_def copy_frame_def)
next
  case (Some i)
  with inv have i: "i = 1 - write_buffer g" by (simp add: store_inv_def)
  from t have "frame_buffer t ! nat (1 - write_buffer g) = frame_buffer g ! nat (1 - write_buffer g)"
    using capture_steps_other_slot by auto
  with Some i show ?thesis by (simp add: get_latest_frame_def copy_frame_def)
qed

lemma copy_within_iteration:
  assumes inv: "store_inv g" and j: "j < length (g # capture_steps inp g)" and ij: "i \<le> j"
  shows "copy_frame (latest_frame ((g # capture_steps inp g) ! i)) ((g # capture_steps inp g) ! j)
           = get_latest_frame ((g # capture_steps inp g) ! i)"
proof (cases "i = j")
  case True
  then show ?thesis by (simp add: get_latest_frame_def)
next
  case False
  define tr where "tr = g # capture_steps inp g"
  from False ij j have "i < length tr - 1" unfolding tr_def by arith
  then have i: "i < length (butlast tr)" by (simp only: length_butlast)
  then have "butlast tr ! i \<in> set (butlast tr)" by (rule nth_mem)
  moreover from i have "butlast tr ! i = tr ! i" by (rule nth_butlast)
  ultimately have mem: "tr ! i \<in> set (butlast tr)" by (simp only:)
  then have l: "latest_frame (tr ! i) = latest_frame g"
    unfolding tr_def by (rule latest_frame_before_publish)
  from mem have ti: "tr ! i \<in> set tr" by (rule in_set_butlastD)
  from j have tj: "tr ! j \<in> set tr" unfolding tr_def by (rule nth_mem)
  have "copy_frame (latest_frame g) (tr ! j) = get_latest_frame g"
    using inv tj unfolding tr_def by (rule copy_frame_old_latest)
  moreover have "get_latest_frame (tr ! i) = get_latest_frame g"
    using copy_frame_old_latest [OF inv ti [unfolded tr_def]] l
    unfolding tr_def by (simp only: get_latest_frame_def)
  ultimately show ?thesis using l unfolding tr_def by (simp only:)
qed

lemma started_grabber_simp:
  "started_grabber =
     \<lparr>config = default_config, pipeline = Streaming (stream_request default_config),
      running = True, frame_count = 0, latest_frame = None,
      frame_buffer = [zero_frame, zero_frame], write_buffer = 0, start_time_ms = 5,
      capture_threads = 1\<rparr>"
  by (simp add: started_grabber_def fresh_grabber_def start_def new_RGBGrabber_def
        default_config_def vga_camera_def stream_request_def zero_frame_def)

lemma reachable_started_grabber: "reachable started_grabber"
  unfolding started_grabber_def fresh_grabber_def
  by (intro reachable.started reachable.constructed)

lemma capture_run_two_frames:
  "capture_run [ColorFrame 640 480 (Compressed [1]) 10, ColorFrame 640 480 (Compressed [2, 2]) 20] started_grabber =
     \<lparr>config = default_config, pipeline = Streaming (stream_request default_config),
      running = True, frame_count = 2, latest_frame = Some 1,
      frame_buffer = [\<lparr>data = [1], width = 640, height = 480, timestamp_ms = 10, frame_number = 0\<rparr>,
                      \<lparr>data = [2, 2], width = 640, height = 480, timestamp_ms = 20, frame_number = 1\<rparr>],
      write_buffer = 0, start_time_ms = 5, capture_threads = 1\<rparr>"
  by (simp add: started_grabber_simp capture_iteration_def
        slot_update_def zero_frame_def Let_def)

lemma frame_count_capture_iteration:
  "frame_count (capture_iteration inp g) =
     (if encode_succeeds inp then frame_count g + 1 else frame_count g)"
proof (cases inp)
  case (ColorFrame w h codec now)
  show ?thesis
  proof (cases codec)
    case CodecError
    with ColorFrame show ?thesis by simp
  next
    case (Compressed jpeg)
    with ColorFrame show ?thesis
      by (cases "jpeg = []")
         (simp_all add: capture_iteration_encode_failure capture_steps_last_success)
  qed
qed simp_all

lemma get_latest_frame_capture_iteration:
  assumes "store_inv g"
  shows "get_latest_frame (capture_iteration inp g) =
           (if encode_succeeds inp then Some (frame_of inp (frame_count g))
            else get_latest_frame g)"
proof (cases inp)
  case (ColorFrame w h codec now)
  show ?thesis
  proof (cases codec)
    case CodecError
    with ColorFrame show ?thesis by simp
  next
    case (Compressed jpeg)
    show ?thesis
    proof (cases "jpeg = []")
      case True
      with ColorFrame Compressed show ?thesis
        by (simp add: capture_iteration_encode_failure get_latest_frame_slot_update [OF assms])
    next
      case False
      with ColorFrame Compressed get_latest_frame_published [OF assms] show ?thesis
        by (simp add: capture_steps_last_success)
    qed
  qed
qed simp_all

lemma running_capture_iteration [simp]: "running (capture_iteration inp g) = running g"
proof (cases inp)
  case (ColorFrame w h codec now)
  show ?thesis
  proof (cases codec)
    case CodecError
    with ColorFrame show ?thesis by simp
  next
    case (Compressed jpeg)
    with ColorFrame show ?thesis
      by (cases "jpeg = []")
         (simp_all add: capture_iteration_encode_failure capture_steps_last_success)
  qed
qed simp_all

lemma frame_count_capture_run:
  "frame_count (capture_run inps g) =
     frame_count g + of_nat (length (filter encode_succeeds (before_exit inps)))"
  by (induction inps arbitrary: g) (simp_all add: frame_count_capture_iteration)

lemma capture_run_before_exit: "capture_run (before_exit inps) g = capture_run inps g"
  by (induction inps arbitrary: g) simp_all

lemma get_latest_frame_capture_run:
  assumes "store_inv g"
  shows "get_latest_frame (capture_run inps g) =
           (if filter encode_succeeds (before_exit inps) = [] then get_latest_frame g
            else Some (frame_of (last (filter encode_succeeds (before_exit inps)))
                   (frame_count g + of_nat (length (filter encode_succeeds (before_exit inps)) - 1))))"
  using assms
proof (induction inps arbitrary: g)
  case Nil
  show ?case by simp
next
  case (Cons inp inps)
  let ?g' = "capture_iteration inp g"
  let ?ok = "filter encode_succeeds (before_exit inps)"
  have inv': "store_inv ?g'" using Cons.prems by (rule store_inv_capture_iteration)
  note IH = Cons.IH [OF inv']
  show ?case
  proof (cases "process_exits inp")
    case True
    then show ?thesis by simp
  next
    case running: False
    show ?thesis
    proof (cases "encode_succeeds inp")
      case False
      with running IH Cons.prems show ?thesis
        by (simp add: get_latest_frame_capture_iteration frame_count_capture_iteration)
    next
      case True
      show ?thesis
      proof (cases "?ok = []")
        case True
        with running IH \<open>encode_succeeds inp\<close> Cons.prems show ?thesis
          by (simp add: get_latest_frame_capture_iteration)
      next
        case False
        then have "length ?ok \<noteq> 0" by simp
        then obtain k where k: "length ?ok = Suc k"
          by (cases "length ?ok") simp_all
        with running IH False \<open>encode_succeeds inp\<close> show ?thesis
          by (simp add: frame_count_capture_iteration ac_simps)
      qed
    qed
  qed
qed

lemma length_published_frames:
  assumes "store_inv g"
  shows "length (published_frames inps g) = length (filter encode_succeeds (before_exit inps))"
  using assms
proof (induction inps arbitrary: g)
  case (Cons inp inps)
  then show ?case
    by (simp add: Let_def get_latest_frame_capture_iteration store_inv_capture_iteration)
qed simp

lemma frame_numbers_published_frames:
  assumes "store_inv g"
  shows "map frame_number (published_frames inps g) =
           map (\<lambda>k. ucast (frame_count g + of_nat k))
             [0..<length (filter encode_succeeds (before_exit inps))]"
  using assms
proof (induction inps arbitrary: g)
  case Nil
  show ?case by simp
next
  case (Cons inp inps)
  let ?g' = "capture_iteration inp g"
  let ?n = "length (filter encode_succeeds (before_exit inps))"
  have inv': "store_inv ?g'" using Cons.prems by (rule store_inv_capture_iteration)
  note IH = Cons.IH [OF inv']
  show ?case
  proof (cases "process_exits inp")
    case True
    then show ?thesis by simp
  next
    case running: False
    show ?thesis
    proof (cases "encode_succeeds inp")
      case False
      with running IH Cons.prems show ?thesis
        by (simp add: Let_def frame_count_capture_iteration)
    next
      case True
      have fn: "frame_number (frame_of inp (frame_count g)) = ucast (frame_count g)"
        by (induction inp "frame_count g" rule: frame_of.induct) simp_all
      have upt: "[0..<Suc ?n] = 0 # map Suc [0..<?n]"
        by (simp add: upt_conv_Cons map_Suc_upt del: upt_Suc)
      have "map frame_number (published_frames (inp # inps) g) =
              ucast (frame_count g) # map (\<lambda>k. ucast (frame_count g + 1 + of_nat k)) [0..<?n]"
        using True running IH Cons.prems
        by (simp add: Let_def get_latest_frame_capture_iteration frame_count_capture_iteration fn)
      also have "\<dots> = map (\<lambda>k. ucast (frame_count g + of_nat k)) (0 # map Suc [0..<?n])"
        by (simp add: o_def ac_simps)
      also have "\<dots> = map (\<lambda>k. ucast (frame_count g + of_nat k)) [0..<Suc ?n]"
        by (simp only: upt)
      finally show ?thesis using True running by simp
    qed
  qed
qed

lemma new_grabber_fields [simp]:
  "frame_count (snd (start dev t1 (new_RGBGrabber cfg t0 u0 u1))) = 0"
  "latest_frame (snd (start dev t1 (new_RGBGrabber cfg t0 u0 u1))) = None"
  by (simp_all add: start_def new_RGBGrabber_def Let_def)

lemma ucast_of_nat_64_32: "(ucast (of_nat k :: 64 word) :: 32 word) = of_nat k"
proof -
  have "(ucast (word_of_int (int k) :: 64 word) :: 32 word) = word_of_int (int k)"
    by (rule ucast_down_wi) (simp add: is_down)
  then show ?thesis by simp
qed

lemma get_latest_frame_session [simp]:
  "get_latest_frame (snd (start dev t1 (new_RGBGrabber cfg t0 u0 u1))) = None"
  by (simp add: get_latest_frame_def copy_frame_def)

lemma store_inv_session: "store_inv (snd (start dev t1 (new_RGBGrabber cfg t0 u0 u1)))"
  by (intro store_inv_start store_inv_new)

lemma before_exit_replicate:
  "before_exit (replicate n inp) = (if process_exits inp then [] else replicate n inp)"
  by (induction n) simp_all

lemma frame_number_nth_published:
  assumes "store_inv g" and "k < length (filter encode_succeeds (before_exit inps))"
  shows "frame_number (published_frames inps g ! k) = ucast (frame_count g + of_nat k)"
proof -
  have "frame_number (published_frames inps g ! k) = map frame_number (published_frames inps g) ! k"
    using assms by (simp add: length_published_frames)
  also have "\<dots> = ucast (frame_count g + of_nat k)"
    using assms by (simp add: frame_numbers_published_frames)
  finally show ?thesis .
qed

text \<open>
  Where the loop goes on and where it ends: with no stop request it is still looping after
  any inputs among which no codec error occurs, and has terminated at the first codec error
  otherwise; it returns only after a stop request.
\<close>

lemma capture_loop_no_stop:
  "running g \<Longrightarrow>
   capture_loop (map (\<lambda>i. (i, False)) inps) g =
     (if list_ex process_exits inps then Terminated ProcessExit (capture_run inps g)
      else Looping (capture_run inps g))"
  by (induction inps arbitrary: g) simp_all

lemma capture_loop_exits_on_stop_only:
  "capture_loop evs g = Exited g' \<Longrightarrow> running g \<Longrightarrow> \<exists>e \<in> set evs. snd e"
proof (induction evs arbitrary: g)
  case Nil
  then show ?case by simp
next
  case (Cons ev evs)
  obtain inp stop_requested where ev: "ev = (inp, stop_requested)" by (cases ev)
  show ?case
  proof (cases stop_requested)
    case True
    with ev show ?thesis by simp
  next
    case False
    with Cons.prems ev have "capture_loop evs (capture_iteration inp g) = Exited g'"
      by (simp split: if_splits)
    moreover have "running (capture_iteration inp g)" using Cons.prems by simp
    ultimately have "\<exists>e \<in> set evs. snd e" by (rule Cons.IH)
    then show ?thesis by auto
  qed
qed

lemma capture_loop_codec_error:
  "running g \<Longrightarrow> process_exits inp \<Longrightarrow>
   capture_loop ((inp, stop_requested) # rest) g = Terminated ProcessExit g"
  by simp

lemma running_started_grabber: "running started_grabber"
  by (simp add: started_grabber_simp)

section \<open>Lemmas about the publisher and the lifecycle\<close>

lemma le_bytes_Suc: "le_bytes (Suc n) w = ucast w # le_bytes n (drop_bit 8 w)"
proof -
  have "[0..<Suc n] = 0 # map Suc [0..<n]"
    by (simp add: upt_conv_Cons map_Suc_upt del: upt_Suc)
  then show ?thesis
    by (simp add: le_bytes_def o_def drop_bit_drop_bit add.commute del: upt_Suc)
qed

lemma le_bytes_0 [simp]: "le_bytes 0 w = []"
  by (simp add: le_bytes_def)

lemma length_le_bytes [simp]: "length (le_bytes n w) = n"
  by (simp add: le_bytes_def)

lemma le_word_Nil [simp]: "le_word [] = 0"
  by (simp add: le_word_def)

lemma le_word_Cons: "le_word (b # bs) = ucast b OR push_bit 8 (le_word bs)"
  by (simp add: le_word_def)

lemma le_word_le_bytes: "le_word (le_bytes n w) = take_bit (8 * n) (w :: 'a::len word)"
proof (induction n arbitrary: w)
  case 0
  show ?case by simp
next
  case (Suc n)
  have "le_word (le_bytes (Suc n) w) =
          ucast (ucast w :: byte) OR push_bit 8 (take_bit (8 * n) (drop_bit 8 w))"
    by (simp add: le_bytes_Suc le_word_Cons Suc.IH)
  also have "\<dots> = take_bit (8 * Suc n) w"
    by (rule bit_word_eqI) (auto simp: bit_simps)
  finally show ?case .
qed

lemma length_object_bytes [simp]: "length (object_bytes order n w) = n"
  by (cases order) (simp_all add: object_bytes_def)

lemma word_of_object_bytes:
  "LENGTH('a) \<le> 8 * n \<Longrightarrow> word_of_bytes order (object_bytes order n w) = (w :: 'a::len word)"
  by (cases order) (simp_all add: word_of_bytes_def object_bytes_def le_word_le_bytes
      take_bit_word_eq_self)

lemma length_build_message: "length (build_message order frame) = 20 + length (data frame)"
  by (simp add: build_message_def)

lemma build_message_layout:
  "take 4 (build_message order frame) = object_bytes order 4 (width frame)"
  "take 4 (drop 4 (build_message order frame)) = object_bytes order 4 (height frame)"
  "take 8 (drop 8 (build_message order frame)) = object_bytes order 8 (timestamp_ms frame)"
  "take 4 (drop 16 (build_message order frame)) = object_bytes order 4 (frame_number frame)"
  "drop 20 (build_message order frame) = data frame"
  by (simp_all add: build_message_def)

lemma le_bytes_4: "le_bytes 4 w = [ucast w, ucast (drop_bit 8 w), ucast (drop_bit 16 w), ucast (drop_bit 24 w)]"
  by (simp add: le_bytes_def upt_rec)

lemma le_bytes_8: "le_bytes 8 w = [ucast w, ucast (drop_bit 8 w), ucast (drop_bit 16 w), ucast (drop_bit 24 w),
   ucast (drop_bit 32 w), ucast (drop_bit 40 w), ucast (drop_bit 48 w), ucast (drop_bit 56 w)]"
  by (simp add: le_bytes_def upt_rec)

lemma build_message_example:
  "build_message LittleEndian
     \<lparr>data = [0xFF, 0xD8, 0xFF], width = 640, height = 480, timestamp_ms = 123456789,
      frame_number = 42\<rparr> =
   [0x80, 0x02, 0, 0,  0xE0, 0x01, 0, 0,  0x15, 0xCD, 0x5B, 0x07, 0, 0, 0, 0,  0x2A, 0, 0, 0,
    0xFF, 0xD8, 0xFF]"
  by (simp add: build_message_def object_bytes_def le_bytes_4 le_bytes_8 drop_bit_eq_div)

lemma slot_update_pipeline [simp]: "pipeline (slot_update i f g) = pipeline g"
  by (simp add: slot_update_def)

lemma pipeline_capture_iteration [simp]: "pipeline (capture_iteration inp g) = pipeline g"
proof (cases inp)
  case (ColorFrame w h codec now)
  show ?thesis
  proof (cases codec)
    case CodecError
    with ColorFrame show ?thesis by simp
  next
    case (Compressed jpeg)
    with ColorFrame show ?thesis
      by (cases "jpeg = []")
         (simp_all add: capture_iteration_encode_failure capture_steps_last_success)
  qed
qed simp_all

lemma reachable_running_streaming: "reachable g \<Longrightarrow> running g \<Longrightarrow> pipeline g \<noteq> Stopped"
proof (induction rule: reachable.induct)
  case (constructed cfg now u0 u1)
  then show ?case by (simp add: new_RGBGrabber_def)
next
  case (started g dev now)
  then show ?case by (auto simp: start_def Let_def split: if_splits)
next
  case (stopped g g')
  then show ?case by (auto simp: stop_def split: if_splits sum.splits)
next
  case (captured g inp)
  then show ?case by simp
qed

lemma stop_reachable:
  assumes "reachable g"
  shows "stop g = Inr (if running g then g\<lparr>running := False, pipeline := Stopped\<rparr> else g)"
proof (cases "running g")
  case True
  with assms have "pipeline g \<noteq> Stopped" by (rule reachable_running_streaming)
  then obtain c where "pipeline g = Streaming c" by (cases "pipeline g") simp_all
  with True show ?thesis by (simp add: stop_def pipeline_stop_def)
next
  case False
  then show ?thesis by (simp add: stop_def)
qed

lemma stop_twice: "stop g = Inr g1 \<Longrightarrow> stop g1 = Inr g1"
  by (auto simp: stop_def split: if_splits sum.splits)

section \<open>The double buffer\<close>

text \<open>
  C1 (amended). In every reachable state at the head of a loop iteration the slot about to be
  written, \<^verbatim>\<open>frame_buffer_[write_buffer_]\<close>, is not the slot that \<^verbatim>\<open>latest_frame_\<close> points to.
  Through all the stores of the iteration the other slot stays as it was, and
  \<^verbatim>\<open>latest_frame_\<close> changes only in the final store, when the slot it then points to holds
  all five fields of the new frame. Hence a reader that loads the pointer in any state of
  the iteration and finishes its copy in the same or a later state of that iteration gets
  the complete frame that was latest when it loaded the pointer.
\<close>

theorem double_buffer_write_then_publish:
  assumes "reachable g"
  shows "latest_frame g \<noteq> Some (write_buffer g) \<and>
         (\<forall>s \<in> set (capture_steps inp g).
            frame_buffer s ! nat (1 - write_buffer g) = frame_buffer g ! nat (1 - write_buffer g) \<and>
            ((latest_frame s = latest_frame g \<and> get_latest_frame s = get_latest_frame g) \<or>
             (s = capture_iteration inp g \<and> latest_frame s = Some (write_buffer g) \<and>
              get_latest_frame s = Some (frame_of inp (frame_count g))))) \<and>
         (\<forall>j < length (g # capture_steps inp g). \<forall>i \<le> j.
            copy_frame (latest_frame ((g # capture_steps inp g) ! i))
                       ((g # capture_steps inp g) ! j)
              = get_latest_frame ((g # capture_steps inp g) ! i))"
proof -
  from assms have inv: "store_inv g" by (rule reachable_store_inv)
  then have "latest_frame g \<noteq> Some (write_buffer g)"
    by (auto simp: store_inv_def)
  moreover have "\<forall>s \<in> set (capture_steps inp g).
            frame_buffer s ! nat (1 - write_buffer g) = frame_buffer g ! nat (1 - write_buffer g) \<and>
            ((latest_frame s = latest_frame g \<and> get_latest_frame s = get_latest_frame g) \<or>
             (s = capture_iteration inp g \<and> latest_frame s = Some (write_buffer g) \<and>
              get_latest_frame s = Some (frame_of inp (frame_count g))))"
    using capture_steps_reader [OF inv] capture_steps_other_slot by blast
  moreover have "\<forall>j < length (g # capture_steps inp g). \<forall>i \<le> j.
            copy_frame (latest_frame ((g # capture_steps inp g) ! i))
                       ((g # capture_steps inp g) ! j)
              = get_latest_frame ((g # capture_steps inp g) ! i)"
    using copy_within_iteration [OF inv] by blast
  ultimately show ?thesis by blast
qed

theorem double_buffer_write_then_publish_witness:
  "reachable (capture_run [ColorFrame 640 480 (Compressed [1]) 10, ColorFrame 640 480 (Compressed [2, 2]) 20] started_grabber) \<and>
   capture_iteration (ColorFrame 640 480 (Compressed [3]) 30)
       (capture_run [ColorFrame 640 480 (Compressed [1]) 10, ColorFrame 640 480 (Compressed [2, 2]) 20] started_grabber)
     \<in> set (capture_steps (ColorFrame 640 480 (Compressed [3]) 30)
       (capture_run [ColorFrame 640 480 (Compressed [1]) 10, ColorFrame 640 480 (Compressed [2, 2]) 20] started_grabber)) \<and>
   latest_frame (capture_run [ColorFrame 640 480 (Compressed [1]) 10, ColorFrame 640 480 (Compressed [2, 2]) 20] started_grabber)
     = Some 1 \<and>
   write_buffer (capture_run [ColorFrame 640 480 (Compressed [1]) 10, ColorFrame 640 480 (Compressed [2, 2]) 20] started_grabber)
     = 0 \<and>
   get_latest_frame (capture_iteration (ColorFrame 640 480 (Compressed [3]) 30)
       (capture_run [ColorFrame 640 480 (Compressed [1]) 10, ColorFrame 640 480 (Compressed [2, 2]) 20] started_grabber)) =
     Some \<lparr>data = [3], width = 640, height = 480, timestamp_ms = 30, frame_number = 2\<rparr> \<and>
   copy_frame (Some 1) (capture_iteration (ColorFrame 640 480 (Compressed [3]) 30)
       (capture_run [ColorFrame 640 480 (Compressed [1]) 10, ColorFrame 640 480 (Compressed [2, 2]) 20] started_grabber)) =
     Some \<lparr>data = [2, 2], width = 640, height = 480, timestamp_ms = 20, frame_number = 1\<rparr>"
proof -
  let ?g = "capture_run [ColorFrame 640 480 (Compressed [1]) 10, ColorFrame 640 480 (Compressed [2, 2]) 20] started_grabber"
  let ?inp = "ColorFrame 640 480 (Compressed [3]) 30"
  have r: "reachable ?g"
    by (rule reachable_capture_run [OF reachable_started_grabber])
  have g: "?g = \<lparr>config = default_config, pipeline = Streaming (stream_request default_config),
      running = True, frame_count = 2, latest_frame = Some 1,
      frame_buffer = [\<lparr>data = [1], width = 640, height = 480, timestamp_ms = 10, frame_number = 0\<rparr>,
                      \<lparr>data = [2, 2], width = 640, height = 480, timestamp_ms = 20, frame_number = 1\<rparr>],
      write_buffer = 0, start_time_ms = 5, capture_threads = 1\<rparr>"
    by (rule capture_run_two_frames)
  have m: "capture_iteration ?inp ?g \<in> set (capture_steps ?inp ?g)"
    by (simp add: capture_iteration_def Let_def)
  have l: "latest_frame (capture_iteration ?inp ?g) \<noteq> latest_frame ?g"
    unfolding g by (simp add: capture_steps_last_success)
  have v: "latest_frame ?g = Some 1" "write_buffer ?g = 0" "frame_count ?g = 2"
    unfolding g by simp_all
  have prev: "get_latest_frame ?g =
     Some \<lparr>data = [2, 2], width = 640, height = 480, timestamp_ms = 20, frame_number = 1\<rparr>"
    unfolding g by (simp add: get_latest_frame_def copy_frame_def)
  have len: "length (?g # capture_steps ?inp ?g) = 9"
    by (simp add: Let_def)
  have nth: "(?g # capture_steps ?inp ?g) ! 8 = capture_iteration ?inp ?g"
    by (simp add: capture_iteration_def Let_def)
  note inst = double_buffer_write_then_publish [OF r, of ?inp]
  from inst m l
  have "get_latest_frame (capture_iteration ?inp ?g) = Some (frame_of ?inp (frame_count ?g))"
    by blast
  then have publ: "get_latest_frame (capture_iteration ?inp ?g) =
     Some \<lparr>data = [3], width = 640, height = 480, timestamp_ms = 30, frame_number = 2\<rparr>"
    by (simp only: v frame_of.simps) simp
  from inst have w: "copy_frame (latest_frame ((?g # capture_steps ?inp ?g) ! i))
                       ((?g # capture_steps ?inp ?g) ! j)
              = get_latest_frame ((?g # capture_steps ?inp ?g) ! i)"
    if "j < length (?g # capture_steps ?inp ?g)" and "i \<le> j" for i j
    using that by blast
  have lt: "8 < length (?g # capture_steps ?inp ?g)" by (simp only: len)
  have le: "(0::nat) \<le> 8" by simp
  from w [OF lt le]
  have "copy_frame (latest_frame ((?g # capture_steps ?inp ?g) ! 0))
                       ((?g # capture_steps ?inp ?g) ! 8)
              = get_latest_frame ((?g # capture_steps ?inp ?g) ! 0)" .
  then have "copy_frame (latest_frame ?g) (capture_iteration ?inp ?g) = get_latest_frame ?g"
    by (simp only: nth nth_Cons_0)
  then have window: "copy_frame (Some 1) (capture_iteration ?inp ?g) =
     Some \<lparr>data = [2, 2], width = 640, height = 480, timestamp_ms = 20, frame_number = 1\<rparr>"
    by (simp only: v prev)
  with r m v publ show ?thesis by blast
qed

text \<open>
  C1, as stated, has every reader see a fully formed frame. A reader that loads the pointer
  after the first frame is published (slot 0) and copies the slot only after the capture
  thread has published the second frame and stored the JPEG bytes of the third gets the
  third frame's data under the first frame's width, height, timestamp and number.
\<close>

theorem torn_copy_counterexample:
  "latest_frame (capture_run [ColorFrame 640 480 (Compressed [1]) 10] started_grabber) = Some 0 \<and>
   get_latest_frame (capture_run [ColorFrame 640 480 (Compressed [1]) 10] started_grabber) =
     Some \<lparr>data = [1], width = 640, height = 480, timestamp_ms = 10, frame_number = 0\<rparr> \<and>
   copy_frame (latest_frame (capture_run [ColorFrame 640 480 (Compressed [1]) 10] started_grabber))
     (hd (capture_steps (ColorFrame 640 480 (Compressed [3, 3, 3]) 30)
            (capture_run [ColorFrame 640 480 (Compressed [1]) 10, ColorFrame 640 480 (Compressed [2, 2]) 20] started_grabber))) =
     Some \<lparr>data = [3, 3, 3], width = 640, height = 480, timestamp_ms = 10, frame_number = 0\<rparr>"
proof -
  have one: "capture_run [ColorFrame 640 480 (Compressed [1]) 10] started_grabber =
     \<lparr>config = default_config, pipeline = Streaming (stream_request default_config),
      running = True, frame_count = 1, latest_frame = Some 0,
      frame_buffer = [\<lparr>data = [1], width = 640, height = 480, timestamp_ms = 10, frame_number = 0\<rparr>,
                      zero_frame],
      write_buffer = 1, start_time_ms = 5, capture_threads = 1\<rparr>"
    by (simp add: started_grabber_simp capture_iteration_def slot_update_def zero_frame_def Let_def)
  show ?thesis
    unfolding one capture_run_two_frames
    by (simp add: get_latest_frame_def copy_frame_def slot_update_def Let_def)
qed

section \<open>Reading the latest frame\<close>

text \<open>
  C2. After any run of the capture loop on a freshly started grabber, \<open>get_latest_frame\<close>
  returns false exactly when no iteration of the run has encoded, and so published, a frame;
  otherwise it returns the frame of the last successful iteration, carrying as its number
  the count of successful iterations before it. From any reachable state likewise: a run
  with no successful iteration leaves the result of \<open>get_latest_frame\<close> as it was, and after
  any other run it is the frame of the last successful iteration. The iterations of a run
  are those up to the one, if any, in which the process exits.
\<close>

theorem get_latest_frame_most_recent:
  "get_latest_frame (capture_run inps (snd (start dev t1 (new_RGBGrabber cfg t0 u0 u1)))) =
     (if filter encode_succeeds (before_exit inps) = [] then None
      else Some (frame_of (last (filter encode_succeeds (before_exit inps)))
                   (of_nat (length (filter encode_succeeds (before_exit inps)) - 1)))) \<and>
   (reachable g \<longrightarrow>
      get_latest_frame (capture_run inps g) =
        (if filter encode_succeeds (before_exit inps) = [] then get_latest_frame g
         else Some (frame_of (last (filter encode_succeeds (before_exit inps)))
                      (frame_count g +
                       of_nat (length (filter encode_succeeds (before_exit inps)) - 1)))))"
  by (simp add: get_latest_frame_capture_run [OF store_inv_session]
        get_latest_frame_capture_run [OF reachable_store_inv])

theorem get_latest_frame_most_recent_witness:
  "get_latest_frame (capture_run [] started_grabber) = None \<and>
   get_latest_frame (capture_run [WaitFailed Timeout, NoColorFrame, ColorFrame 640 480 CodecError 7,
                   ColorFrame 640 480 (Compressed [9]) 8] started_grabber) = None \<and>
   get_latest_frame
     (capture_run [ColorFrame 640 480 (Compressed [1]) 10, NoColorFrame, ColorFrame 640 480 (Compressed [2, 2]) 20,
                   WaitFailed DeviceError, ColorFrame 640 480 CodecError 30,
                   ColorFrame 640 480 (Compressed [3]) 40] started_grabber) =
     Some \<lparr>data = [2, 2], width = 640, height = 480, timestamp_ms = 20, frame_number = 1\<rparr> \<and>
   reachable (capture_run [ColorFrame 640 480 (Compressed [1]) 10, ColorFrame 640 480 (Compressed [2, 2]) 20] started_grabber) \<and>
   get_latest_frame
     (capture_run [WaitFailed Timeout, ColorFrame 640 480 (Compressed [3]) 40, NoColorFrame]
        (capture_run [ColorFrame 640 480 (Compressed [1]) 10, ColorFrame 640 480 (Compressed [2, 2]) 20] started_grabber)) =
     Some \<lparr>data = [3], width = 640, height = 480, timestamp_ms = 40, frame_number = 2\<rparr>"
proof -
  let ?g = "capture_run [ColorFrame 640 480 (Compressed [1]) 10, ColorFrame 640 480 (Compressed [2, 2]) 20] started_grabber"
  have r: "reachable ?g"
    by (rule reachable_capture_run [OF reachable_started_grabber])
  have c: "frame_count ?g = 2"
    unfolding capture_run_two_frames by simp
  have fresh: "get_latest_frame (capture_run [] started_grabber) = None \<and>
   get_latest_frame (capture_run [WaitFailed Timeout, NoColorFrame, ColorFrame 640 480 CodecError 7,
                   ColorFrame 640 480 (Compressed [9]) 8] started_grabber) = None \<and>
   get_latest_frame
     (capture_run [ColorFrame 640 480 (Compressed [1]) 10, NoColorFrame, ColorFrame 640 480 (Compressed [2, 2]) 20,
                   WaitFailed DeviceError, ColorFrame 640 480 CodecError 30,
                   ColorFrame 640 480 (Compressed [3]) 40] started_grabber) =
     Some \<lparr>data = [2, 2], width = 640, height = 480, timestamp_ms = 20, frame_number = 1\<rparr>"
    unfolding started_grabber_def fresh_grabber_def
    using get_latest_frame_most_recent [of "[]" vga_camera 5 default_config 0 zero_frame zero_frame]
      get_latest_frame_most_recent [of "[WaitFailed Timeout, NoColorFrame, ColorFrame 640 480 CodecError 7,
                   ColorFrame 640 480 (Compressed [9]) 8]"
        vga_camera 5 default_config 0 zero_frame zero_frame]
      get_latest_frame_most_recent [of "[ColorFrame 640 480 (Compressed [1]) 10, NoColorFrame,
        ColorFrame 640 480 (Compressed [2, 2]) 20, WaitFailed DeviceError, ColorFrame 640 480 CodecError 30,
                   ColorFrame 640 480 (Compressed [3]) 40]"
        vga_camera 5 default_config 0 zero_frame zero_frame]
    by simp
  from get_latest_frame_most_recent
         [of "[WaitFailed Timeout, ColorFrame 640 480 (Compressed [3]) 40, NoColorFrame]" _ _ _ _ _ _ ?g] r
  have "get_latest_frame
     (capture_run [WaitFailed Timeout, ColorFrame 640 480 (Compressed [3]) 40, NoColorFrame] ?g) =
     Some (frame_of (ColorFrame 640 480 (Compressed [3]) 40) (frame_count ?g + 0))"
    by simp
  then have "get_latest_frame
     (capture_run [WaitFailed Timeout, ColorFrame 640 480 (Compressed [3]) 40, NoColorFrame] ?g) =
     Some \<lparr>data = [3], width = 640, height = 480, timestamp_ms = 40, frame_number = 2\<rparr>"
    by (simp only: c frame_of.simps) simp
  with fresh r show ?thesis by blast
qed

section \<open>Sequence numbers\<close>

text \<open>
  C3 (amended). On a freshly started grabber the frames published over a run carry the numbers
  0, 1, 2, ... taken modulo \<open>2 ^ 32\<close>, one per successfully encoded frame; the counter ends at
  the number of successes; an iteration whose encode fails leaves the counter unchanged, and
  so do \<open>start\<close> and \<open>stop\<close>; and while no more than \<open>2 ^ 32\<close> frames have been encoded the
  numbers are exactly \<open>0, ..., n - 1\<close>, hence consecutive and strictly increasing. The
  iterations of a run are those up to the one, if any, in which the process exits.
\<close>

theorem sequence_numbers_modulo:
  "map frame_number (published_frames inps (snd (start dev t1 (new_RGBGrabber cfg t0 u0 u1)))) =
     map of_nat [0..<length (filter encode_succeeds (before_exit inps))] \<and>
   frame_count (capture_run inps (snd (start dev t1 (new_RGBGrabber cfg t0 u0 u1)))) =
     of_nat (length (filter encode_succeeds (before_exit inps))) \<and>
   (\<not> encode_succeeds inp \<longrightarrow> frame_count (capture_iteration inp g) = frame_count g) \<and>
   frame_count (snd (start dev' t g)) = frame_count g \<and>
   (stop g = Inr g' \<longrightarrow> frame_count g' = frame_count g) \<and>
   (length (filter encode_succeeds (before_exit inps)) \<le> 2 ^ 32 \<longrightarrow>
      map (unat \<circ> frame_number)
        (published_frames inps (snd (start dev t1 (new_RGBGrabber cfg t0 u0 u1)))) =
      [0..<length (filter encode_succeeds (before_exit inps))])"
proof -
  let ?g0 = "snd (start dev t1 (new_RGBGrabber cfg t0 u0 u1))"
  let ?n = "length (filter encode_succeeds (before_exit inps))"
  have nums: "map frame_number (published_frames inps ?g0) = map of_nat [0..<?n]"
    by (simp add: frame_numbers_published_frames [OF store_inv_session] ucast_of_nat_64_32)
  have count: "frame_count (capture_run inps ?g0) = of_nat ?n"
    by (simp add: frame_count_capture_run)
  have fail: "\<not> encode_succeeds inp \<longrightarrow> frame_count (capture_iteration inp g) = frame_count g"
    by (simp add: frame_count_capture_iteration)
  have small: "map (unat \<circ> frame_number) (published_frames inps ?g0) = [0..<?n]"
    if le: "?n \<le> 2 ^ 32"
  proof -
    have "map (unat \<circ> frame_number) (published_frames inps ?g0) =
            map unat (map frame_number (published_frames inps ?g0))"
      by simp
    also have "\<dots> = map (\<lambda>k. unat (of_nat k :: 32 word)) [0..<?n]"
      by (simp only: nums map_map o_def)
    also have "\<dots> = map (\<lambda>k. k) [0..<?n]"
    proof (rule map_cong [OF refl])
      fix k assume "k \<in> set [0..<?n]"
      with le have "k < 2 ^ 32" by simp
      then show "unat (of_nat k :: 32 word) = k"
        by (simp add: unat_of_nat)
    qed
    finally show ?thesis by simp
  qed
  have restart: "frame_count (snd (start dev' t g)) = frame_count g"
    by (simp add: start_def Let_def)
  have halt: "stop g = Inr g' \<longrightarrow> frame_count g' = frame_count g"
    by (auto simp: stop_def split: if_splits sum.splits)
  from nums count fail restart halt small show ?thesis by blast
qed

theorem sequence_numbers_modulo_witness:
  "map frame_number
     (published_frames [ColorFrame 640 480 (Compressed [1]) 10, NoColorFrame, WaitFailed Timeout,
                        ColorFrame 640 480 (Compressed [2, 2]) 20,
                        ColorFrame 640 480 (Compressed [3]) 30] started_grabber)
     = [0, 1, 2] \<and>
   map frame_number
     (published_frames [ColorFrame 640 480 (Compressed [1]) 10, ColorFrame 640 480 CodecError 15,
                        ColorFrame 640 480 (Compressed [2, 2]) 20] started_grabber)
     = [0] \<and>
   \<not> encode_succeeds (ColorFrame 640 480 CodecError 15) \<and>
   frame_count (capture_iteration (ColorFrame 640 480 CodecError 15) started_grabber) =
     frame_count started_grabber \<and>
   stop started_grabber = Inr (started_grabber\<lparr>running := False, pipeline := Stopped\<rparr>) \<and>
   frame_count (started_grabber\<lparr>running := False, pipeline := Stopped\<rparr>) =
     frame_count started_grabber \<and>
   map (unat \<circ> frame_number)
     (published_frames [ColorFrame 640 480 (Compressed [1]) 10, NoColorFrame, WaitFailed Timeout,
                        ColorFrame 640 480 (Compressed [2, 2]) 20,
                        ColorFrame 640 480 (Compressed [3]) 30] started_grabber)
     = [0, 1, 2]"
proof -
  have st: "stop started_grabber = Inr (started_grabber\<lparr>running := False, pipeline := Stopped\<rparr>)"
    by (simp add: stop_def pipeline_stop_def started_grabber_simp)
  have g: "started_grabber =
             snd (start vga_camera 5 (new_RGBGrabber default_config 0 zero_frame zero_frame))"
    by (simp add: started_grabber_def fresh_grabber_def)
  from sequence_numbers_modulo [of "[ColorFrame 640 480 (Compressed [1]) 10, NoColorFrame,
      WaitFailed Timeout, ColorFrame 640 480 (Compressed [2, 2]) 20,
      ColorFrame 640 480 (Compressed [3]) 30]"
      vga_camera 5 default_config 0 zero_frame zero_frame "ColorFrame 640 480 CodecError 15"
      started_grabber vga_camera 9 "started_grabber\<lparr>running := False, pipeline := Stopped\<rparr>"]
    sequence_numbers_modulo [of "[ColorFrame 640 480 (Compressed [1]) 10,
      ColorFrame 640 480 CodecError 15, ColorFrame 640 480 (Compressed [2, 2]) 20]"
      vga_camera 5 default_config 0 zero_frame zero_frame]
    st
  show ?thesis
    unfolding g [symmetric] by (simp add: upt_rec)
qed

text \<open>
  C3, as stated, fails once \<open>2 ^ 32\<close> frames have been encoded: the 32-bit \<^verbatim>\<open>frame_number\<close>
  of the frame after number \<open>0xFFFFFFFF\<close> is 0.
\<close>

theorem sequence_number_wraps_counterexample:
  "frame_number (published_frames (replicate (2 ^ 32 + 1) (ColorFrame 640 480 (Compressed [255]) 0))
                   started_grabber ! (2 ^ 32 - 1)) = 0xFFFFFFFF \<and>
   frame_number (published_frames (replicate (2 ^ 32 + 1) (ColorFrame 640 480 (Compressed [255]) 0))
                   started_grabber ! (2 ^ 32)) = 0"
proof -
  let ?inps = "replicate (2 ^ 32 + 1) (ColorFrame 640 480 (Compressed [255]) 0)"
  have inv: "store_inv started_grabber"
    unfolding started_grabber_def fresh_grabber_def by (rule store_inv_session)
  have n: "length (filter encode_succeeds (before_exit ?inps)) = 2 ^ 32 + 1"
    by (simp add: before_exit_replicate)
  have c: "frame_count started_grabber = 0"
    unfolding started_grabber_def fresh_grabber_def by simp
  have "frame_number (published_frames ?inps started_grabber ! (2 ^ 32 - 1)) =
          ucast (frame_count started_grabber + of_nat (2 ^ 32 - 1))"
    using n by (intro frame_number_nth_published [OF inv]) simp
  moreover have "frame_number (published_frames ?inps started_grabber ! (2 ^ 32)) =
          ucast (frame_count started_grabber + of_nat (2 ^ 32))"
    using n by (intro frame_number_nth_published [OF inv]) simp
  ultimately show ?thesis
    by (simp only: c add_0 ucast_of_nat_64_32) simp
qed

section \<open>Resilience of the capture loop\<close>

text \<open>
  C7. The claim: no per-frame condition ends the capture loop; after a capture timeout, a
  hard source error or an encode failure the loop goes on to its next iteration, and it
  exits only once the stop flag has been set from outside. The loop does go on after failed
  waits and missing color frames. It does not after an encode failure that the codec
  reports as an error: the default error manager that \<^verbatim>\<open>encode_jpeg\<close> installs calls
  \<^verbatim>\<open>exit()\<close>, so the process, and the loop with it, ends in that iteration with the running
  flag still set, no stop having been requested, and the inputs after it never consumed.
\<close>

theorem codec_error_terminates_loop:
  "running started_grabber \<and>
   capture_loop [(WaitFailed Timeout, False), (WaitFailed DeviceError, False),
                 (NoColorFrame, False)] started_grabber =
     Looping started_grabber \<and>
   capture_loop [(WaitFailed Timeout, False), (ColorFrame 640 480 CodecError 20, False),
                 (NoColorFrame, False)] started_grabber =
     Terminated ProcessExit started_grabber"
  using running_started_grabber by simp

section \<open>The publish contract\<close>

text \<open>
  C4. Every call of \<open>publish\<close> returns normally, in one of two ways. Either it returns true:
  the send completed, \<^verbatim>\<open>published_count_\<close> has grown by one and \<^verbatim>\<open>dropped_count_\<close> is
  unchanged. Or it returns false: the send did not complete (it would have blocked, or the
  transport threw \<^verbatim>\<open>zmq::error_t\<close>, which \<open>publish\<close> catches), \<^verbatim>\<open>dropped_count_\<close> has grown by
  one and \<^verbatim>\<open>published_count_\<close> is unchanged.
\<close>

theorem publish_contract:
  "(fst (publish order r frame p) \<and>
      socket_send (socket_open p) r = Sent \<and>
      published_count (snd (publish order r frame p)) = published_count p + 1 \<and>
      published_count (snd (publish order r frame p)) \<noteq> published_count p \<and>
      dropped_count (snd (publish order r frame p)) = dropped_count p \<and>
      sent (snd (publish order r frame p)) = sent p @ [build_message order frame])
   \<or>
   (\<not> fst (publish order r frame p) \<and>
      socket_send (socket_open p) r \<noteq> Sent \<and>
      dropped_count (snd (publish order r frame p)) = dropped_count p + 1 \<and>
      dropped_count (snd (publish order r frame p)) \<noteq> dropped_count p \<and>
      published_count (snd (publish order r frame p)) = published_count p \<and>
      sent (snd (publish order r frame p)) = sent p)"
  by (cases "socket_send (socket_open p) r") (simp_all add: publish_def Let_def)

theorem publish_contract_witness:
  "publish LittleEndian Sent zero_frame (new_FramePublisher default_publisher_config) =
     (True, (new_FramePublisher default_publisher_config)
        \<lparr>sent := [build_message LittleEndian zero_frame], published_count := 1\<rparr>) \<and>
   publish LittleEndian WouldBlock zero_frame (new_FramePublisher default_publisher_config) =
     (False, (new_FramePublisher default_publisher_config)\<lparr>dropped_count := 1\<rparr>) \<and>
   publish LittleEndian SendError zero_frame (new_FramePublisher default_publisher_config) =
     (False, (new_FramePublisher default_publisher_config)\<lparr>dropped_count := 1\<rparr>)"
proof -
  let ?p = "new_FramePublisher default_publisher_config"
  have fields: "socket_open ?p" "sent ?p = []" "published_count ?p = 0" "dropped_count ?p = 0"
    by (simp_all add: new_FramePublisher_def)
  have a: "publish LittleEndian Sent zero_frame ?p =
     (True, ?p\<lparr>sent := [build_message LittleEndian zero_frame], published_count := 1\<rparr>)"
    using publish_contract [of LittleEndian Sent zero_frame ?p] fields
    by (simp add: publish_def socket_send_def Let_def)
  have b: "publish LittleEndian WouldBlock zero_frame ?p = (False, ?p\<lparr>dropped_count := 1\<rparr>)"
    using publish_contract [of LittleEndian WouldBlock zero_frame ?p] fields
    by (simp add: publish_def socket_send_def Let_def)
  have c: "publish LittleEndian SendError zero_frame ?p = (False, ?p\<lparr>dropped_count := 1\<rparr>)"
    using publish_contract [of LittleEndian SendError zero_frame ?p] fields
    by (simp add: publish_def socket_send_def Let_def)
  from a b c show ?thesis by simp
qed

section \<open>The wire format\<close>

text \<open>
  C5. The message built for a frame has exactly \<open>20 + N\<close> bytes, where \<open>N\<close> is the number of
  JPEG bytes (this is the \<^verbatim>\<open>total_size\<close> the buffer is allocated with): the four bytes of the
  width at offset 0, of the height at offset 4, the eight bytes of the timestamp at offset 8,
  the four bytes of the frame number at offset 16 and the JPEG bytes from offset 20. Reading
  the message back by that layout, in the byte order it was written in, gives the frame
  again: the same four field values and the same bytes.
\<close>

theorem wire_format_round_trip:
  "length (build_message order frame) = 20 + length (data frame) \<and>
   length (build_message order frame) = total_size frame \<and>
   take 4 (build_message order frame) = object_bytes order 4 (width frame) \<and>
   take 4 (drop 4 (build_message order frame)) = object_bytes order 4 (height frame) \<and>
   take 8 (drop 8 (build_message order frame)) = object_bytes order 8 (timestamp_ms frame) \<and>
   take 4 (drop 16 (build_message order frame)) = object_bytes order 4 (frame_number frame) \<and>
   drop 20 (build_message order frame) = data frame \<and>
   parse_message_spec order (build_message order frame) = Some frame"
proof -
  have "parse_message_spec order (build_message order frame) = Some frame"
    by (simp add: parse_message_spec_def length_build_message build_message_layout
          word_of_object_bytes)
  then show ?thesis
    by (simp add: length_build_message build_message_layout total_size_def header_size_def)
qed

theorem wire_format_round_trip_witness:
  "parse_message_spec LittleEndian
     [0x80, 0x02, 0, 0,  0xE0, 0x01, 0, 0,  0x15, 0xCD, 0x5B, 0x07, 0, 0, 0, 0,  0x2A, 0, 0, 0,
      0xFF, 0xD8, 0xFF] =
   Some \<lparr>data = [0xFF, 0xD8, 0xFF], width = 640, height = 480, timestamp_ms = 123456789,
         frame_number = 42\<rparr>"
  using wire_format_round_trip [of LittleEndian
     "\<lparr>data = [0xFF, 0xD8, 0xFF], width = 640, height = 480, timestamp_ms = 123456789,
      frame_number = 42\<rparr>"]
  by (simp only: build_message_example)

section \<open>Starting and stopping\<close>

text \<open>
  C10. Calling \<open>start\<close> on a grabber that is already running returns true and leaves the
  whole object as it was: the pipeline is not started again, no further capture thread is
  created, and neither the frame counter nor the start time is reset.
\<close>

theorem start_idempotent_while_running:
  "running g \<Longrightarrow>
     start dev now g = (True, g) \<and>
     pipeline (snd (start dev now g)) = pipeline g \<and>
     capture_threads (snd (start dev now g)) = capture_threads g \<and>
     frame_count (snd (start dev now g)) = frame_count g \<and>
     start_time_ms (snd (start dev now g)) = start_time_ms g"
  by (simp add: start_def)

theorem start_idempotent_while_running_witness:
  "running started_grabber \<and>
   start (\<lambda>c. False) 99 started_grabber = (True, started_grabber) \<and>
   capture_threads (snd (start (\<lambda>c. False) 99 started_grabber)) = 1 \<and>
   start_time_ms (snd (start (\<lambda>c. False) 99 started_grabber)) = 5"
proof -
  have r: "running started_grabber"
    by (simp add: started_grabber_def fresh_grabber_def start_def new_RGBGrabber_def
          default_config_def vga_camera_def stream_request_def)
  have c: "capture_threads started_grabber = 1 \<and> start_time_ms started_grabber = 5"
    by (simp add: started_grabber_def fresh_grabber_def start_def new_RGBGrabber_def
          default_config_def vga_camera_def stream_request_def)
  from start_idempotent_while_running [OF r, of "\<lambda>c. False" 99] r c show ?thesis
    by simp
qed

text \<open>
  C6 (amended). \<open>start\<close> examines no configuration value itself. It returns true exactly when
  the grabber is already running or the capture source accepts the requested stream; when the
  source cannot be opened or rejects the stream mode, \<open>start\<close> returns false and leaves the
  grabber as it was, the pipeline not started. The stream request does not contain the JPEG
  quality, so the result of \<open>start\<close> does not depend on it.
\<close>

theorem start_fails_only_on_source:
  "fst (start dev now g) = (running g \<or> dev (stream_request (config g))) \<and>
   (\<not> fst (start dev now g) \<longrightarrow> snd (start dev now g) = g) \<and>
   (\<not> running g \<and> \<not> dev (stream_request (config g)) \<longrightarrow> start dev now g = (False, g)) \<and>
   stream_request ((config g)\<lparr>jpeg_quality := q\<rparr>) = stream_request (config g) \<and>
   fst (start dev now (g\<lparr>config := (config g)\<lparr>jpeg_quality := q\<rparr>\<rparr>)) = fst (start dev now g)"
  by (simp add: start_def stream_request_def Let_def)

theorem start_fails_only_on_source_witness:
  "start (\<lambda>c. False) 5 fresh_grabber = (False, fresh_grabber) \<and>
   pipeline (snd (start (\<lambda>c. False) 5 fresh_grabber)) = Stopped \<and>
   start vga_camera 5 (fresh_grabber\<lparr>config := default_config\<lparr>cfg_width := 1920\<rparr>\<rparr>) =
     (False, fresh_grabber\<lparr>config := default_config\<lparr>cfg_width := 1920\<rparr>\<rparr>) \<and>
   fst (start vga_camera 5 fresh_grabber)"
proof -
  have f: "\<not> running fresh_grabber" "pipeline fresh_grabber = Stopped"
      "config fresh_grabber = default_config"
    by (simp_all add: fresh_grabber_def new_RGBGrabber_def)
  have v: "vga_camera (stream_request default_config)"
      "\<not> vga_camera (stream_request (default_config\<lparr>cfg_width := 1920\<rparr>))"
    by (simp_all add: vga_camera_def stream_request_def default_config_def)
  from start_fails_only_on_source [of "\<lambda>c. False" 5 fresh_grabber]
    start_fails_only_on_source [of vga_camera 5 "fresh_grabber\<lparr>config := default_config\<lparr>cfg_width := 1920\<rparr>\<rparr>"]
    start_fails_only_on_source [of vga_camera 5 fresh_grabber]
  show ?thesis using f v by simp
qed

text \<open>
  C6, as stated, has \<open>start\<close> fail for a quality above 100 or not above 0. With a camera that
  streams the requested 640 by 480 at 30 frames per second, \<open>start\<close> succeeds and opens the
  source for quality 101 and for quality 0.
\<close>

theorem start_ignores_quality_counterexample:
  "sint (jpeg_quality (default_config\<lparr>jpeg_quality := 101\<rparr>)) > 100 \<and>
   fst (start vga_camera 5
          (new_RGBGrabber (default_config\<lparr>jpeg_quality := 101\<rparr>) 0 zero_frame zero_frame)) \<and>
   sint (jpeg_quality (default_config\<lparr>jpeg_quality := 0\<rparr>)) \<le> 0 \<and>
   fst (start vga_camera 5
          (new_RGBGrabber (default_config\<lparr>jpeg_quality := 0\<rparr>) 0 zero_frame zero_frame)) \<and>
   pipeline (snd (start vga_camera 5
          (new_RGBGrabber (default_config\<lparr>jpeg_quality := 0\<rparr>) 0 zero_frame zero_frame))) =
     Streaming \<lparr>stream_width = 640, stream_height = 480, stream_fps = 30, stream_device = None\<rparr>"
  by (simp add: start_def new_RGBGrabber_def default_config_def vga_camera_def stream_request_def)

text \<open>
  C8 (amended). On a reachable grabber \<open>stop\<close> returns without an error, and a second \<open>stop\<close>
  right after it returns without an error and changes nothing: the captured frame count and
  the publisher's two counters are what they were after the first. On a live publisher a
  \<open>publish\<close> returns normally and changes exactly one of the two counters, by one. Nothing
  is promised for a \<open>publish\<close> after the socket is closed: only the destructor closes it.
\<close>

theorem idempotent_shutdown:
  assumes "reachable (grabber a)"
  shows "\<exists>a1. app_stop a = Inr a1 \<and> app_stop a1 = Inr a1 \<and>
           frame_count (grabber a1) = frame_count (grabber a) \<and>
           published_count (publisher a1) = published_count (publisher a) \<and>
           dropped_count (publisher a1) = dropped_count (publisher a) \<and>
           (\<exists>b p'. publish_on order r frame (Live p) = Inr (b, Live p') \<and>
              ((b \<and> published_count p' = published_count p + 1 \<and>
                  dropped_count p' = dropped_count p) \<or>
               (\<not> b \<and> dropped_count p' = dropped_count p + 1 \<and>
                  published_count p' = published_count p)))"
proof -
  let ?g1 = "if running (grabber a) then (grabber a)\<lparr>running := False, pipeline := Stopped\<rparr>
             else grabber a"
  let ?a1 = "a\<lparr>grabber := ?g1\<rparr>"
  have s1: "stop (grabber a) = Inr ?g1" using assms by (rule stop_reachable)
  then have first: "app_stop a = Inr ?a1" by (simp add: app_stop_def)
  have "stop ?g1 = Inr ?g1" using s1 by (rule stop_twice)
  then have second: "app_stop ?a1 = Inr ?a1" by (simp add: app_stop_def)
  have counters: "frame_count (grabber ?a1) = frame_count (grabber a)"
      "published_count (publisher ?a1) = published_count (publisher a)"
      "dropped_count (publisher ?a1) = dropped_count (publisher a)"
    by simp_all
  have live: "\<exists>b p'. publish_on order r frame (Live p) = Inr (b, Live p') \<and>
              ((b \<and> published_count p' = published_count p + 1 \<and>
                  dropped_count p' = dropped_count p) \<or>
               (\<not> b \<and> dropped_count p' = dropped_count p + 1 \<and>
                  published_count p' = published_count p))"
    by (cases "socket_send (socket_open p) r") (auto simp: publish_on_def publish_def Let_def)
  from first second counters live show ?thesis by blast
qed

theorem idempotent_shutdown_witness:
  "reachable started_grabber \<and>
   app_stop \<lparr>grabber = started_grabber, publisher = new_FramePublisher default_publisher_config\<rparr> =
     Inr \<lparr>grabber = started_grabber\<lparr>running := False, pipeline := Stopped\<rparr>,
          publisher = new_FramePublisher default_publisher_config\<rparr> \<and>
   app_stop \<lparr>grabber = started_grabber\<lparr>running := False, pipeline := Stopped\<rparr>,
             publisher = new_FramePublisher default_publisher_config\<rparr> =
     Inr \<lparr>grabber = started_grabber\<lparr>running := False, pipeline := Stopped\<rparr>,
          publisher = new_FramePublisher default_publisher_config\<rparr> \<and>
   publish_on LittleEndian WouldBlock zero_frame
       (Live (new_FramePublisher default_publisher_config)) =
     Inr (False, Live ((new_FramePublisher default_publisher_config)\<lparr>dropped_count := 1\<rparr>))"
proof -
  let ?a = "\<lparr>grabber = started_grabber, publisher = new_FramePublisher default_publisher_config\<rparr>"
  let ?p = "new_FramePublisher default_publisher_config"
  have r: "reachable (grabber ?a)" by (simp add: reachable_started_grabber)
  have st: "app_stop ?a = Inr \<lparr>grabber = started_grabber\<lparr>running := False, pipeline := Stopped\<rparr>,
          publisher = ?p\<rparr>"
    by (simp add: app_stop_def stop_def pipeline_stop_def started_grabber_simp)
  from idempotent_shutdown [OF r, of LittleEndian WouldBlock zero_frame ?p]
  obtain a1 b p' where a1: "app_stop ?a = Inr a1" "app_stop a1 = Inr a1"
    and pub: "publish_on LittleEndian WouldBlock zero_frame (Live ?p) = Inr (b, Live p')"
    by blast
  from a1 st have "app_stop \<lparr>grabber = started_grabber\<lparr>running := False, pipeline := Stopped\<rparr>,
             publisher = ?p\<rparr> =
     Inr \<lparr>grabber = started_grabber\<lparr>running := False, pipeline := Stopped\<rparr>, publisher = ?p\<rparr>"
    by simp
  moreover from pub have "publish_on LittleEndian WouldBlock zero_frame (Live ?p) =
     Inr (False, Live (?p\<lparr>dropped_count := 1\<rparr>))"
    by (simp add: publish_on_def publish_def socket_send_def new_FramePublisher_def)
  ultimately show ?thesis using st reachable_started_grabber by simp
qed

text \<open>
  C8, as stated, has a \<open>publish\<close> after the socket is closed return without a crash. The
  socket of a publisher is closed by its destructor, and a \<open>publish\<close> on the destroyed
  object is a fault.
\<close>

theorem publish_after_destructor_counterexample:
  "publish_on LittleEndian Sent zero_frame
     (destroy_FramePublisher (new_FramePublisher default_publisher_config)) =
   Inl UseAfterDestroy"
  by (simp add: publish_on_def destroy_FramePublisher_def)

end
